theory Spec2Isabelle
  imports Complex_Main
begin

section \<open>Pagination decision of the document composer\<close>

text \<open>
  \<^verbatim>\<open>shouldBreakPage\<close> (services/pdf.service.js, inside \<^verbatim>\<open>generateHTML\<close>) reads
  the line items of the request and nothing else:
  \<^verbatim>\<open>if (items.length <= 8) { return false; } return true;\<close>
  The items are an array; only its length is used, so the element type is left open.
\<close>

definition shouldBreakPage :: "'item list \<Rightarrow> bool" where
  "shouldBreakPage items = (if length items \<le> 8 then False else True)"

text \<open>
  The class put on the terms section: \<^verbatim>\<open>shouldBreakPage() ? "new-page" : ""\<close>.
\<close>

definition termsSectionClass :: "'item list \<Rightarrow> string" where
  "termsSectionClass items = ''terms-section '' @ (if shouldBreakPage items then ''new-page'' else [])"

section \<open>Terms normalisation\<close>

subsection \<open>The string primitives the source uses\<close>

text \<open>
  A JavaScript string is modelled by the list of its code units; \<^typ>\<open>char\<close> ranges
  over the code units U+0000 to U+00FF, which contain every character that the regular
  expressions of \<^verbatim>\<open>processTermsAndConditions\<close> name. In that range the class
  \<^verbatim>\<open>\s\<close>, which is also what \<^verbatim>\<open>trim()\<close> strips, is tab, line feed, vertical tab,
  form feed, carriage return, space and the no-break space U+00A0; \<^verbatim>\<open>\d\<close> is the ten
  ASCII digits.
\<close>

definition isWhitespace :: "char \<Rightarrow> bool" where
  "isWhitespace c =
     (c = CHR 0x09 \<or> c = CHR 0x0A \<or> c = CHR 0x0B \<or> c = CHR 0x0C \<or> c = CHR 0x0D
      \<or> c = CHR 0x20 \<or> c = CHR 0xA0)"

definition isDigit :: "char \<Rightarrow> bool" where
  "isDigit c = (c \<in> set ''0123456789'')"

text \<open>The class \<^verbatim>\<open>["'\[\]]\<close>: double quote, apostrophe and the two square brackets.\<close>

definition isQuoteOrBracket :: "char \<Rightarrow> bool" where
  "isQuoteOrBracket c = (c = CHR 0x22 \<or> c = CHR 0x27 \<or> c = CHR ''['' \<or> c = CHR '']'')"

text \<open>The class \<^verbatim>\<open>["',\s]\<close>: double quote, apostrophe, comma and whitespace.\<close>

definition isQuoteCommaSpace :: "char \<Rightarrow> bool" where
  "isQuoteCommaSpace c = (c = CHR 0x22 \<or> c = CHR 0x27 \<or> c = CHR '','' \<or> isWhitespace c)"

text \<open>
  \<^verbatim>\<open>s.replace(/^C+|C+$/g, "")\<close> for a character class \<open>C\<close>: the first alternative can
  only match at index 0 and takes the whole leading run of \<open>C\<close>; the second matches at
  the first later index from which only \<open>C\<close> characters remain, which is the start of
  the trailing run of what is left.
\<close>

definition stripEdges :: "(char \<Rightarrow> bool) \<Rightarrow> string \<Rightarrow> string" where
  "stripEdges C s = rev (dropWhile C (rev (dropWhile C s)))"

definition trim :: "string \<Rightarrow> string" where
  "trim s = stripEdges isWhitespace s"

text \<open>\<^verbatim>\<open>s.replace(/\\"/g, '"')\<close>: every backslash followed by a double quote becomes the quote.\<close>

fun unescapeQuotes :: "string \<Rightarrow> string" where
  "unescapeQuotes (a # b # cs) =
     (if a = CHR 0x5C \<and> b = CHR 0x22 then CHR 0x22 # unescapeQuotes cs
      else a # unescapeQuotes (b # cs))"
| "unescapeQuotes cs = cs"

text \<open>\<^verbatim>\<open>s.replace(/\s+/g, " ")\<close>: every maximal run of whitespace becomes one space.\<close>

function collapseWhitespace :: "string \<Rightarrow> string" where
  "collapseWhitespace [] = []"
| "collapseWhitespace (c # cs) =
     (if isWhitespace c then CHR 0x20 # collapseWhitespace (dropWhile isWhitespace cs)
      else c # collapseWhitespace cs)"
  by pat_completeness auto
termination
  by (relation "measure length") (auto simp: length_dropWhile_le less_Suc_eq_le)

text \<open>\<^verbatim>\<open>s.replace(/","/g, " ")\<close>: every quote-comma-quote becomes one space.\<close>

fun replaceQuoteCommaQuote :: "string \<Rightarrow> string" where
  "replaceQuoteCommaQuote (a # b # c # cs) =
     (if a = CHR 0x22 \<and> b = CHR '','' \<and> c = CHR 0x22 then CHR 0x20 # replaceQuoteCommaQuote cs
      else a # replaceQuoteCommaQuote (b # c # cs))"
| "replaceQuoteCommaQuote cs = cs"

text \<open>\<^verbatim>\<open>s.replace(/^\[|\]$/g, "")\<close>: one opening bracket at the start, one closing bracket at the end.\<close>

definition stripOuterBrackets :: "string \<Rightarrow> string" where
  "stripOuterBrackets s =
     (let s1 = (case s of c # cs \<Rightarrow> if c = CHR ''['' then cs else s | [] \<Rightarrow> [])
      in if s1 \<noteq> [] \<and> last s1 = CHR '']'' then butlast s1 else s1)"

text \<open>
  \<^verbatim>\<open>\d+\.\<close> tried at the head of a string: the digits are taken greedily and must be
  followed by a dot; the result is what follows the dot.
\<close>

definition matchDigitsDot :: "string \<Rightarrow> string option" where
  "matchDigitsDot s =
     (if takeWhile isDigit s = [] then None
      else case dropWhile isDigit s of
             [] \<Rightarrow> None
           | c # rest \<Rightarrow> if c = CHR ''.'' then Some rest else None)"

text \<open>\<^verbatim>\<open>s.match(/\d+\./)\<close> is truthy when the pattern matches at some index.\<close>

fun hasMarker :: "string \<Rightarrow> bool" where
  "hasMarker [] = False"
| "hasMarker (c # cs) = (matchDigitsDot (c # cs) \<noteq> None \<or> hasMarker cs)"

text \<open>
  \<^verbatim>\<open>\s*\d+\.\s*\<close> tried at the head of a string. Whitespace, digits and the dot are
  disjoint classes, so backtracking never finds a match that the greedy run misses.
\<close>

definition matchMarker :: "string \<Rightarrow> string option" where
  "matchMarker s =
     (case matchDigitsDot (dropWhile isWhitespace s) of
        None \<Rightarrow> None
      | Some rest \<Rightarrow> Some (dropWhile isWhitespace rest))"

lemma matchDigitsDot_shorter: "matchDigitsDot s = Some rest \<Longrightarrow> length rest < length s"
proof -
  assume m: "matchDigitsDot s = Some rest"
  then obtain c where "dropWhile isDigit s = c # rest"
    by (auto simp: matchDigitsDot_def split: if_splits list.splits)
  then have "length (dropWhile isDigit s) = Suc (length rest)" by simp
  moreover have "length (dropWhile isDigit s) \<le> length s" by (rule length_dropWhile_le)
  ultimately show ?thesis by simp
qed

lemma matchMarker_shorter: "matchMarker s = Some rest \<Longrightarrow> length rest < length s"
proof -
  assume m: "matchMarker s = Some rest"
  then obtain r where r: "matchDigitsDot (dropWhile isWhitespace s) = Some r"
    and rest: "rest = dropWhile isWhitespace r"
    by (auto simp: matchMarker_def split: option.splits)
  have "length rest \<le> length r" unfolding rest by (rule length_dropWhile_le)
  also have "length r < length (dropWhile isWhitespace s)" by (rule matchDigitsDot_shorter [OF r])
  also have "\<dots> \<le> length s" by (rule length_dropWhile_le)
  finally show ?thesis .
qed

text \<open>
  \<^verbatim>\<open>s.split(/\s*\d+\.\s*/)\<close>, as \<^verbatim>\<open>RegExp.prototype[Symbol.split]\<close> runs it: the
  pattern is tried at each index from the end of the last match on; where it matches,
  the text collected so far is one segment and the scan goes on after the match; the
  text after the last match is the last segment. The first argument is the segment being
  collected, in reverse.
\<close>

function splitFrom :: "string \<Rightarrow> string \<Rightarrow> string list" where
  "splitFrom cur [] = [rev cur]"
| "splitFrom cur (c # cs) =
     (case matchMarker (c # cs) of
        Some rest \<Rightarrow> rev cur # splitFrom [] rest
      | None \<Rightarrow> splitFrom (c # cur) cs)"
  by pat_completeness auto
termination
  by (relation "measure (\<lambda>(cur, s). length s)") (auto dest: matchMarker_shorter)

definition splitMarkers :: "string \<Rightarrow> string list" where
  "splitMarkers s = splitFrom [] s"

subsection \<open>\<^verbatim>\<open>processTermsAndConditions\<close>\<close>

text \<open>
  What the function can be given: nothing (\<^verbatim>\<open>null\<close>, \<^verbatim>\<open>undefined\<close>), an array, a
  string, or another value. An array element is a string or something else; the source
  skips what is not a string. \<^verbatim>\<open>JSON.parse\<close> is a function of the platform: its result
  on a text is a parameter, an array, another value, or a syntax error.
\<close>

datatype jsvalue = JString string | JOther

datatype terms_input = TNull | TArray "jsvalue list" | TString string | TOther

datatype parsed = ParseError | ParsedArray "jsvalue list" | ParsedOther

text \<open>
  The numbered-list step, written twice in the source (for an array element and for a
  string): \<^verbatim>\<open>split\<close>, then \<^verbatim>\<open>slice(1)\<close>, \<^verbatim>\<open>map(trim)\<close> and the filter on the
  length.
\<close>

definition splitNumbered :: "string \<Rightarrow> string list" where
  "splitNumbered cleanTerm =
     (if hasMarker cleanTerm then
        (let numberedSplit = splitMarkers cleanTerm in
         if length numberedSplit > 1
         then filter (\<lambda>t. length t > 0) (map trim (drop 1 numberedSplit))
         else [cleanTerm])
      else [cleanTerm])"

definition cleanArrayTerm :: "string \<Rightarrow> string" where
  "cleanArrayTerm term = trim (unescapeQuotes (stripEdges isQuoteOrBracket term))"

fun processArrayElement :: "jsvalue \<Rightarrow> string list" where
  "processArrayElement (JString term) =
     (if length (trim term) > 0 then splitNumbered (cleanArrayTerm term) else [])"
| "processArrayElement JOther = []"

definition finalCleanup :: "string list \<Rightarrow> string list" where
  "finalCleanup processedTerms =
     filter (\<lambda>t. length t > 0)
       (map (\<lambda>t. trim (collapseWhitespace (stripEdges isQuoteCommaSpace t))) processedTerms)"

definition processArray :: "jsvalue list \<Rightarrow> string list" where
  "processArray terms = finalCleanup (concat (map processArrayElement terms))"

definition cleanStringTerm :: "string \<Rightarrow> string" where
  "cleanStringTerm s =
     trim (collapseWhitespace (unescapeQuotes (stripEdges isQuoteOrBracket (replaceQuoteCommaQuote s))))"

definition processString :: "string \<Rightarrow> string list" where
  "processString s =
     (let cleanString = cleanStringTerm s in
      if length cleanString = 0 then [] else finalCleanup (splitNumbered cleanString))"

definition startsWithBracket :: "string \<Rightarrow> bool" where
  "startsWithBracket s = (case s of c # _ \<Rightarrow> c = CHR ''['' | [] \<Rightarrow> False)"

definition endsWithBracket :: "string \<Rightarrow> bool" where
  "endsWithBracket s = (s \<noteq> [] \<and> last s = CHR '']'')"

fun processTermsAndConditions :: "(string \<Rightarrow> parsed) \<Rightarrow> terms_input \<Rightarrow> string list" where
  "processTermsAndConditions jsonParse TNull = []"
| "processTermsAndConditions jsonParse (TArray terms) = processArray terms"
| "processTermsAndConditions jsonParse (TString terms) =
     (if terms = [] then []
      else if startsWithBracket terms \<and> endsWithBracket terms then
        (case jsonParse terms of
           ParsedArray parsedArray \<Rightarrow> processArray parsedArray
         | ParsedOther \<Rightarrow> processString terms
         | ParseError \<Rightarrow> processString (stripOuterBrackets terms))
      else processString terms)"
| "processTermsAndConditions jsonParse TOther = finalCleanup []"

text \<open>The specification's \<open>Normalize\<close> on an array of strings.\<close>

definition Normalize :: "string list \<Rightarrow> string list" where
  "Normalize x = processArray (map JString x)"

subsection \<open>Predicates on terms used in the properties\<close>

text \<open>
  \<open>startsMarker\<close>: the pattern \<^verbatim>\<open>\d+\.\<close> matches at the head. \<open>hasEdgeBracket\<close>: the
  term begins or ends with a square bracket. \<open>hasEscapedQuote\<close>: the term contains a
  backslash followed by a double quote. \<open>settled\<close>: what the final clean-up pass leaves
  behind, a non-empty term with no quote, comma or whitespace at either end, single
  spaces as its only whitespace runs, and no numbered-list marker.
\<close>

definition startsMarker :: "string \<Rightarrow> bool" where
  "startsMarker s = (matchDigitsDot s \<noteq> None)"

definition isBracket :: "char \<Rightarrow> bool" where
  "isBracket c = (c = CHR ''['' \<or> c = CHR '']'')"

definition hasEdgeBracket :: "string \<Rightarrow> bool" where
  "hasEdgeBracket t = (t \<noteq> [] \<and> (isBracket (hd t) \<or> isBracket (last t)))"

fun hasEscapedQuote :: "string \<Rightarrow> bool" where
  "hasEscapedQuote (a # b # cs) = ((a = CHR 0x5C \<and> b = CHR 0x22) \<or> hasEscapedQuote (b # cs))"
| "hasEscapedQuote cs = False"

definition settled :: "string \<Rightarrow> bool" where
  "settled t = (t \<noteq> [] \<and> \<not> isQuoteCommaSpace (hd t) \<and> \<not> isQuoteCommaSpace (last t)
                \<and> collapseWhitespace t = t \<and> \<not> hasMarker t)"

section \<open>Reading a property of an object\<close>

text \<open>
  The tables of the source are object literals, and \<^verbatim>\<open>table[key]\<close> looks a key up in
  the object first and in \<^verbatim>\<open>Object.prototype\<close> next. A key is an own property with its
  value, or a property that every object inherits (a function, or for \<^verbatim>\<open>__proto__\<close>
  the prototype itself), or missing (\<^verbatim>\<open>undefined\<close>).
\<close>

definition objectPrototypeProperties :: "string list" where
  "objectPrototypeProperties =
     [''constructor'', ''__defineGetter__'', ''__defineSetter__'', ''hasOwnProperty'',
      ''__lookupGetter__'', ''__lookupSetter__'', ''isPrototypeOf'', ''propertyIsEnumerable'',
      ''toString'', ''valueOf'', ''__proto__'', ''toLocaleString'']"

datatype 'a property = Own 'a | Inherited | Missing

definition getProperty :: "(string \<times> 'a) list \<Rightarrow> string \<Rightarrow> 'a property" where
  "getProperty object key =
     (case map_of object key of
        Some v \<Rightarrow> Own v
      | None \<Rightarrow> if key \<in> set objectPrototypeProperties then Inherited else Missing)"

section \<open>Currency formatting\<close>

text \<open>
  \<^verbatim>\<open>formatCurrency\<close> of the PDF service only concatenates strings: a symbol outside
  ASCII is written here as the bytes of its UTF-8 encoding. The number is what
  \<^verbatim>\<open>Number(amount)\<close> gives, a finite value or \<^verbatim>\<open>NaN\<close>; finite doubles are read as
  reals, and no arithmetic is done on them. \<^verbatim>\<open>Intl.NumberFormat("en-IN", ...)\<close> and
  \<^verbatim>\<open>String.prototype.toUpperCase\<close> belong to the platform: the formatter is the
  parameter \<open>nf\<close>, from the number of fraction digits and the number to the text, and
  the change of case is the parameter \<open>toUpperCase\<close>.
\<close>

datatype jsnum = NaN | Num real















section \<open>Exchange-rate cache\<close>

text \<open>
  A rate table is a JavaScript object from currency codes to numbers, kept here as the
  list of its entries in key order. A rate is a finite number, read as a real, or
  \<^verbatim>\<open>NaN\<close>; the quotient of two finite numbers as the platform rounds it is the
  parameter \<open>quo\<close>. The cache is the object
  \<^verbatim>\<open>exchangeRateCache\<close> of the service; \<^verbatim>\<open>lastUpdated\<close> is \<^verbatim>\<open>null\<close> or a value of
  \<^verbatim>\<open>Date.now()\<close>, in milliseconds.
\<close>

type_synonym rates = "(string \<times> jsnum) list"

record exchangeRateCache =
  rates :: rates
  lastUpdated :: "int option"
  cacheValidityMs :: int

definition initialCache :: exchangeRateCache where
  "initialCache = \<lparr>rates = [], lastUpdated = None, cacheValidityMs = 3600000\<rparr>"

text \<open>
  What \<^verbatim>\<open>axios.get\<close> does for a base currency is a parameter: the request fails (a
  timeout, a status outside 2xx), or a body arrives, in which
  \<^verbatim>\<open>response.data && response.data.rates\<close> is a table or is falsy.
\<close>

datatype response = RequestFailed string | Body "rates option"

definition fallbackRates :: rates where
  "fallbackRates =
     [(''USD'', Num 0.012), (''EUR'', Num 0.011), (''GBP'', Num 0.0096), (''JPY'', Num 1.79),
      (''AUD'', Num 0.018), (''CAD'', Num 0.016), (''CHF'', Num 0.011), (''CNY'', Num 0.086),
      (''SEK'', Num 0.13), (''NZD'', Num 0.02), (''MXN'', Num 0.21), (''SGD'', Num 0.016),
      (''HKD'', Num 0.095), (''NOK'', Num 0.13), (''INR'', Num 1.0), (''BRL'', Num 0.062),
      (''ZAR'', Num 0.22), (''RUB'', Num 1.15)]"

text \<open>
  \<^verbatim>\<open>convertRates\<close>. \<^verbatim>\<open>!baseRate\<close> holds for a missing entry, for the rate 0 and for
  \<^verbatim>\<open>NaN\<close>. An inherited property is truthy and not a number: every rate divided by it
  is \<^verbatim>\<open>NaN\<close>.
\<close>

definition convertRates :: "(real \<Rightarrow> real \<Rightarrow> real) \<Rightarrow> rates \<Rightarrow> string \<Rightarrow> rates" where
  "convertRates quo rs newBase =
     (case getProperty rs newBase of
        Missing \<Rightarrow> rs
      | Inherited \<Rightarrow> map (\<lambda>(currency, rate). (currency, NaN)) rs
      | Own NaN \<Rightarrow> rs
      | Own (Num baseRate) \<Rightarrow>
          if baseRate = 0 then rs
          else map (\<lambda>(currency, rate).
                      (currency, case rate of NaN \<Rightarrow> NaN | Num x \<Rightarrow> Num (quo x baseRate))) rs)"

text \<open>
  The test at the head of \<^verbatim>\<open>getExchangeRates\<close>:
  \<^verbatim>\<open>lastUpdated && now - lastUpdated < cacheValidityMs\<close>; the number 0 is falsy.
\<close>

definition cacheIsValid :: "int \<Rightarrow> exchangeRateCache \<Rightarrow> bool" where
  "cacheIsValid now cache =
     (case lastUpdated cache of
        None \<Rightarrow> False
      | Some t \<Rightarrow> t \<noteq> 0 \<and> now - t < cacheValidityMs cache)"

definition fallbackFor :: "(real \<Rightarrow> real \<Rightarrow> real) \<Rightarrow> string \<Rightarrow> rates" where
  "fallbackFor quo baseCurrency =
     (if baseCurrency = ''INR'' then fallbackRates
      else convertRates quo fallbackRates baseCurrency)"

text \<open>
  \<^verbatim>\<open>getExchangeRates\<close> returns the table, the cache as it leaves it, and the list of the
  base currencies it asked the network for (empty when it made no request).
\<close>

definition getExchangeRates ::
  "(real \<Rightarrow> real \<Rightarrow> real) \<Rightarrow> (string \<Rightarrow> response) \<Rightarrow> int \<Rightarrow> exchangeRateCache \<Rightarrow> string
     \<Rightarrow> rates \<times> exchangeRateCache \<times> string list" where
  "getExchangeRates quo fetch now cache baseCurrency =
     (if cacheIsValid now cache then (rates cache, cache, [])
      else case fetch baseCurrency of
             Body (Some r) \<Rightarrow>
               (r, cache\<lparr>rates := r, lastUpdated := Some now\<rparr>, [baseCurrency])
           | Body None \<Rightarrow> (fallbackFor quo baseCurrency, cache, [baseCurrency])
           | RequestFailed msg \<Rightarrow> (fallbackFor quo baseCurrency, cache, [baseCurrency]))"

text \<open>
  Two network behaviours for the examples. There the quotient is the division of the
  reals, which is the platform's wherever an example reads a rate: a number divided by
  itself is 1.
\<close>

definition fetchDown :: "string \<Rightarrow> response" where
  "fetchDown baseCurrency = RequestFailed ''timeout of 5000ms exceeded''"

definition fetchLive :: "string \<Rightarrow> response" where
  "fetchLive baseCurrency =
     (if baseCurrency = ''INR'' then Body (Some [(''INR'', Num 1), (''USD'', Num 0.012)])
      else if baseCurrency = ''USD'' then Body (Some [(''INR'', Num 83), (''USD'', Num 1)])
      else Body None)"

section \<open>Render pipeline\<close>

subsection \<open>State of the service and of the outside world\<close>

text \<open>
  The fields of \<^verbatim>\<open>PDFService\<close> that \<^verbatim>\<open>initBrowser\<close>, \<^verbatim>\<open>closeBrowser\<close> and
  \<^verbatim>\<open>generatePurchaseOrderPDF\<close> read and write. A browser is known by the number of the
  process behind it. This part runs one call from its first line to its last without
  another call in between, so a promise that \<^verbatim>\<open>initPromise\<close> holds has settled: it
  carries the browser, or the message of the error it was rejected with.
  \<^verbatim>\<open>maxConcurrentPages\<close> and \<^verbatim>\<open>maxRetries\<close> are set in the constructor and assigned
  nowhere else.
\<close>

type_synonym handle = nat

type_synonym pageid = nat

record pdfService =
  browser :: "handle option"
  isInitializing :: bool
  initPromise :: "(string + handle) option"
  activePages :: int
  browserDisconnected :: bool
  exchangeRateCache :: exchangeRateCache

definition maxConcurrentPages :: int where
  "maxConcurrentPages = 2"

definition maxRetries :: nat where
  "maxRetries = 3"

definition newService :: pdfService where
  "newService = \<lparr>browser = None, isInitializing = False, initPromise = None, activePages = 0,
                  browserDisconnected = False, exchangeRateCache = initialCache\<rparr>"

text \<open>
  What the service does to the outside is kept as a list of events, oldest first: a
  browser process launched, a launch that failed, \<^verbatim>\<open>browser.close()\<close> called,
  a page opened, \<^verbatim>\<open>page.close()\<close> called, the back-off delay waited, the
  exchange-rate source asked. \<^verbatim>\<open>page.close()\<close> and \<^verbatim>\<open>browser.close()\<close> may reject;
  the source swallows both rejections, and the event records the call.
\<close>

datatype event =
    Launched handle
  | LaunchFailed string
  | BrowserCloseCalled handle
  | PageOpened handle pageid
  | PageCloseCalled pageid
  | Waited nat
  | RatesRequested string

record world =
  connected :: "handle set"
  nextHandle :: handle
  nextPage :: pageid
  events :: "event list"

definition newWorld :: world where
  "newWorld = \<lparr>connected = {}, nextHandle = 1, nextPage = 1, events = []\<rparr>"

text \<open>
  What the outside does during one attempt is a parameter: how \<^verbatim>\<open>_createBrowser\<close> ends
  if it is called (an error message, or a browser that reports itself connected or not),
  whether \<^verbatim>\<open>browser.newPage()\<close> rejects, how the steps on the page end (the message of
  the first one to fail, from \<^verbatim>\<open>setViewport\<close> to \<^verbatim>\<open>page.pdf\<close>, or the bytes of the
  PDF), and whether the browser emits \<^verbatim>\<open>disconnected\<close> while those steps run.
\<close>

record attempt_env =
  launch :: "string + bool"
  newPage :: "string option"
  render :: "string + string"
  disconnects :: bool

subsection \<open>Strings of the error messages\<close>

fun isPrefixOf :: "string \<Rightarrow> string \<Rightarrow> bool" where
  "isPrefixOf [] s = True"
| "isPrefixOf (p # ps) [] = False"
| "isPrefixOf (p # ps) (c # cs) = (p = c \<and> isPrefixOf ps cs)"

text \<open>\<^verbatim>\<open>s.includes(pattern)\<close>.\<close>

fun includes_text :: "string \<Rightarrow> string \<Rightarrow> bool" where
  "includes_text [] pattern = (pattern = [])"
| "includes_text (c # cs) pattern = (isPrefixOf pattern (c # cs) \<or> includes_text cs pattern)"

text \<open>A number inside a template literal: its decimal digits.\<close>

function showNat :: "nat \<Rightarrow> string" where
  "showNat n = (if n < 10 then [char_of (48 + n)] else showNat (n div 10) @ [char_of (48 + n mod 10)])"
  by pat_completeness auto
termination
  by (relation "measure id") auto

declare showNat.simps [simp del]

definition showInt :: "int \<Rightarrow> string" where
  "showInt i = (if i < 0 then ''-'' @ showNat (nat (- i)) else showNat (nat i))"

subsection \<open>\<^verbatim>\<open>initBrowser\<close> and \<^verbatim>\<open>closeBrowser\<close>\<close>

text \<open>
  The listener that \<^verbatim>\<open>initBrowser\<close> puts on a browser it has created: on
  \<^verbatim>\<open>disconnected\<close> it sets the flag and forgets the browser.
\<close>

definition onDisconnected :: "handle \<Rightarrow> pdfService \<times> world \<Rightarrow> pdfService \<times> world" where
  "onDisconnected h sw =
     (case sw of (s, w) \<Rightarrow>
        (s\<lparr>browserDisconnected := True, browser := None\<rparr>, w\<lparr>connected := connected w - {h}\<rparr>))"

text \<open>Lines 441 to 458: the flags, the call of \<^verbatim>\<open>_createBrowser\<close>, and its two ends.\<close>

definition createBrowser :: "attempt_env \<Rightarrow> pdfService \<times> world \<Rightarrow> (string + handle) \<times> pdfService \<times> world" where
  "createBrowser e sw =
     (case sw of (s, w) \<Rightarrow>
        let s1 = s\<lparr>isInitializing := True, browserDisconnected := False\<rparr> in
        case launch e of
          Inr reportsConnected \<Rightarrow>
            let h = nextHandle w;
                w1 = w\<lparr>connected := (if reportsConnected then insert h (connected w) else connected w),
                       nextHandle := h + 1, events := events w @ [Launched h]\<rparr>
            in (Inr h, s1\<lparr>initPromise := Some (Inr h), browser := Some h, isInitializing := False\<rparr>, w1)
        | Inl msg \<Rightarrow>
            (Inl msg,
             s1\<lparr>initPromise := Some (Inl msg), isInitializing := False, browserDisconnected := True\<rparr>,
             w\<lparr>events := events w @ [LaunchFailed msg]\<rparr>))"

definition initBrowser :: "attempt_env \<Rightarrow> pdfService \<times> world \<Rightarrow> (string + handle) \<times> pdfService \<times> world" where
  "initBrowser e sw =
     (case sw of (s, w) \<Rightarrow>
        case (if isInitializing s then initPromise s else None) of
          Some outcome \<Rightarrow> (outcome, s, w)
        | None \<Rightarrow>
            (case browser s of
               None \<Rightarrow> createBrowser e (s, w)
             | Some h \<Rightarrow>
                 if h \<notin> connected w \<or> browserDisconnected s then createBrowser e (s, w)
                 else (Inr h, s, w)))"

definition closeBrowser :: "pdfService \<times> world \<Rightarrow> pdfService \<times> world" where
  "closeBrowser sw =
     (case sw of (s, w) \<Rightarrow>
        case browser s of
          None \<Rightarrow> (s, w)
        | Some h \<Rightarrow>
            (s\<lparr>browser := None, browserDisconnected := True\<rparr>,
             w\<lparr>connected := connected w - {h}, events := events w @ [BrowserCloseCalled h]\<rparr>))"

subsection \<open>\<^verbatim>\<open>generatePurchaseOrderPDF\<close>\<close>

text \<open>
  Lines 539 to 548, the end of an attempt that has its PDF: the page is closed and the
  slot is given back.
\<close>

definition completeAttempt :: "pageid \<Rightarrow> pdfService \<times> world \<Rightarrow> pdfService \<times> world" where
  "completeAttempt p sw =
     (case sw of (s, w) \<Rightarrow>
        (s\<lparr>activePages := activePages s - 1\<rparr>, w\<lparr>events := events w @ [PageCloseCalled p]\<rparr>))"

text \<open>
  The body of \<^verbatim>\<open>try\<close> for one attempt. The variable \<^verbatim>\<open>page\<close> lives across the
  attempts: it keeps the page of an earlier attempt until \<^verbatim>\<open>newPage\<close> gives another.
  The result is the error caught or the PDF, then \<^verbatim>\<open>page\<close>, the service and the world.
\<close>

definition tryAttempt ::
  "attempt_env \<Rightarrow> pageid option \<Rightarrow> pdfService \<times> world
     \<Rightarrow> (string + string) \<times> pageid option \<times> pdfService \<times> world" where
  "tryAttempt e page sw =
     (case initBrowser e sw of
        (Inl msg, s1, w1) \<Rightarrow> (Inl msg, page, s1, w1)
      | (Inr h, s1, w1) \<Rightarrow>
          if h \<notin> connected w1 then (Inl ''Browser is not connected'', page, s1, w1)
          else
            let s2 = s1\<lparr>activePages := activePages s1 + 1\<rparr> in
            case newPage e of
              Some msg \<Rightarrow> (Inl msg, page, s2, w1)
            | None \<Rightarrow>
                let p = nextPage w1;
                    w2 = w1\<lparr>nextPage := p + 1, events := events w1 @ [PageOpened h p]\<rparr>;
                    sw3 = (if disconnects e then onDisconnected h (s2, w2) else (s2, w2))
                in case render e of
                     Inl msg \<Rightarrow> (Inl msg, Some p, sw3)
                   | Inr pdf \<Rightarrow> (Inr pdf, None, completeAttempt p sw3))"

text \<open>The test of lines 563 to 567 on the message of the error.\<close>

definition isBrowserFault :: "string \<Rightarrow> bool" where
  "isBrowserFault msg =
     (includes_text msg ''Target closed'' \<or> includes_text msg ''Connection closed''
      \<or> includes_text msg ''Protocol error'')"

text \<open>The \<^verbatim>\<open>catch\<close> block up to line 570.\<close>

definition onFailure :: "string \<Rightarrow> pageid option \<Rightarrow> pdfService \<times> world \<Rightarrow> pdfService \<times> world" where
  "onFailure msg page sw =
     (case sw of (s, w) \<Rightarrow>
        let w1 = (case page of
                    Some p \<Rightarrow> w\<lparr>events := events w @ [PageCloseCalled p]\<rparr>
                  | None \<Rightarrow> w);
            s1 = s\<lparr>activePages := max 0 (activePages s - 1)\<rparr>
        in if isBrowserFault msg
           then (case closeBrowser (s1, w1) of (s2, w2) \<Rightarrow> (s2\<lparr>browserDisconnected := True\<rparr>, w2))
           else (s1, w1))"

text \<open>\<^verbatim>\<open>Math.min(1000 * Math.pow(2, attempt - 1), 10000)\<close>.\<close>

definition backoffDelay :: "nat \<Rightarrow> nat" where
  "backoffDelay attempt = min (1000 * 2 ^ (attempt - 1)) 10000"

definition exhaustedMessage :: "string \<Rightarrow> string" where
  "exhaustedMessage msg = ''PDF generation failed after '' @ showNat maxRetries @ '' attempts: '' @ msg"

text \<open>
  The loop. \<open>env n\<close> is what the outside does during attempt \<open>n\<close>. The result is the
  message of the error thrown, or what the function returns: the PDF, or nothing
  (\<^verbatim>\<open>undefined\<close>) if the loop is left by its condition.
\<close>

function retryLoop ::
  "(nat \<Rightarrow> attempt_env) \<Rightarrow> nat \<Rightarrow> pageid option \<Rightarrow> pdfService \<times> world
     \<Rightarrow> (string + string option) \<times> pdfService \<times> world" where
  "retryLoop env attempt page sw =
     (if attempt < maxRetries then
        (let attempt' = attempt + 1 in
         case tryAttempt (env attempt') page sw of
           (Inr pdf, page', sw') \<Rightarrow> (Inr (Some pdf), sw')
         | (Inl msg, page', sw') \<Rightarrow>
             (case onFailure msg page' sw' of (s'', w'') \<Rightarrow>
                if attempt' \<ge> maxRetries then (Inl (exhaustedMessage msg), s'', w'')
                else retryLoop env attempt' page'
                       (s'', w''\<lparr>events := events w'' @ [Waited (backoffDelay attempt')]\<rparr>)))
      else (Inr None, sw))"
  by pat_completeness auto
termination
  by (relation "measure (\<lambda>(env, attempt, page, sw). maxRetries - attempt)") auto

declare retryLoop.simps [simp del]

definition tooManyMessage :: "int \<Rightarrow> string" where
  "tooManyMessage active =
     ''Too many concurrent PDF operations ('' @ showInt active @ ''/'' @ showInt maxConcurrentPages @ '')''"

definition generatePurchaseOrderPDF ::
  "(real \<Rightarrow> real \<Rightarrow> real) \<Rightarrow> (string \<Rightarrow> response) \<Rightarrow> int \<Rightarrow> (nat \<Rightarrow> attempt_env)
     \<Rightarrow> pdfService \<times> world \<Rightarrow> (string + string option) \<times> pdfService \<times> world" where
  "generatePurchaseOrderPDF quo fetch now env sw =
     (case sw of (s, w) \<Rightarrow>
        if activePages s \<ge> maxConcurrentPages then (Inl (tooManyMessage (activePages s)), s, w)
        else
          (case getExchangeRates quo fetch now (exchangeRateCache s) ''INR'' of
             (exchangeRates, cache', requested) \<Rightarrow>
               retryLoop env 0 None
                 (s\<lparr>exchangeRateCache := cache'\<rparr>,
                  w\<lparr>events := events w @ map RatesRequested requested\<rparr>)))"

text \<open>
  Line 475 taken by itself: the state in which an admitted call enters the loop.
\<close>

definition ratesFetched ::
  "(real \<Rightarrow> real \<Rightarrow> real) \<Rightarrow> (string \<Rightarrow> response) \<Rightarrow> int \<Rightarrow> pdfService \<times> world
     \<Rightarrow> pdfService \<times> world" where
  "ratesFetched quo fetch now sw =
     (case sw of (s, w) \<Rightarrow>
        case getExchangeRates quo fetch now (exchangeRateCache s) ''INR'' of
          (exchangeRates, cache', requested) \<Rightarrow>
            (s\<lparr>exchangeRateCache := cache'\<rparr>,
             w\<lparr>events := events w @ map RatesRequested requested\<rparr>))"

text \<open>The number of browser processes launched, read off the events.\<close>

fun isLaunched :: "event \<Rightarrow> bool" where
  "isLaunched (Launched h) = True"
| "isLaunched ev = False"

definition launchCount :: "world \<Rightarrow> nat" where
  "launchCount w = length (filter isLaunched (events w))"

text \<open>Behaviours of the outside for the examples.\<close>

definition launchFails :: attempt_env where
  "launchFails = \<lparr>launch = Inl ''Failed to launch the browser process'', newPage = None,
                   render = Inr ''%PDF-1.4'', disconnects = False\<rparr>"

definition allGoesWell :: attempt_env where
  "allGoesWell = \<lparr>launch = Inr True, newPage = None, render = Inr ''%PDF-1.4'', disconnects = False\<rparr>"


text \<open>
  A service that has launched browser 1 and holds it, with one slot taken or with both,
  and the world that goes with it.
\<close>

definition warmService :: pdfService where
  "warmService = newService\<lparr>browser := Some 1, initPromise := Some (Inr 1)\<rparr>"

definition busyService :: pdfService where
  "busyService = warmService\<lparr>activePages := 2\<rparr>"

definition warmWorld :: world where
  "warmWorld = newWorld\<lparr>connected := {1}, nextHandle := 2, events := [Launched 1]\<rparr>"

definition launchAlwaysFails :: "nat \<Rightarrow> attempt_env" where
  "launchAlwaysFails attempt = launchFails"


definition alwaysWell :: "nat \<Rightarrow> attempt_env" where
  "alwaysWell attempt = allGoesWell"




section \<open>Calls of \<^verbatim>\<open>initBrowser\<close> that overlap\<close>

text \<open>
  JavaScript runs one piece of code at a time, and a call gives way to others only where
  it awaits. This part follows several render operations at once: a step is a run of the
  source from one await to the next, of one operation, or something the outside does (a
  launch that ends, a browser that disconnects). No step is longer than the source's run
  between two awaits, so every interleaving of the source is one of these steps.

  The fields are those of the service (the suffix keeps them apart from the record of
  the part before). \<^verbatim>\<open>initPromise\<close> is now the number of a promise, and a promise is
  pending until \<^verbatim>\<open>_createBrowser\<close> ends. \<open>live\<close> is the set of launched browser
  processes that have not exited, \<open>listening\<close> the browsers that carry the listener of
  line 449.
\<close>

datatype promise = Unused | Pending | Fulfilled handle | Rejected string

text \<open>
  Where a render operation stands: not there; before a call of \<^verbatim>\<open>initBrowser\<close> (at
  the start of an attempt, the back-off of the last one over); suspended at line 446 on
  the promise it created; suspended on the promise that line 437 returned; past line
  483 with a browser, its page steps running; in the \<^verbatim>\<open>catch\<close> block with the message
  of the error, at the await of \<^verbatim>\<open>page.close()\<close>; inside \<^verbatim>\<open>closeBrowser\<close> at the await
  of \<^verbatim>\<open>browser.close()\<close>; back from \<^verbatim>\<open>closeBrowser\<close>, line 569 not yet run.
\<close>

datatype pc =
    Absent
  | Ready
  | Creating nat
  | Joined nat
  | Rendering handle
  | Caught string
  | Closing handle
  | Flagging

record manager =
  browserM :: "handle option"
  isInitializingM :: bool
  initPromiseM :: "nat option"
  browserDisconnectedM :: bool
  promises :: "nat \<Rightarrow> promise"
  nextPromise :: nat
  live :: "handle set"
  listening :: "handle set"
  nextProcess :: handle
  ops :: "nat \<Rightarrow> pc"

definition initialManager :: manager where
  "initialManager =
     \<lparr>browserM = None, isInitializingM = False, initPromiseM = None, browserDisconnectedM = False,
      promises = (\<lambda>k. Unused), nextPromise = 0, live = {}, listening = {}, nextProcess = 1,
      ops = (\<lambda>i. Absent)\<rparr>"

datatype action =
    Arrive nat
  | Acquire nat
  | LaunchOk nat
  | LaunchErr nat string
  | Resume nat
  | Disconnect handle
  | Succeed nat
  | Fail nat string
  | Handle nat
  | CloseDone nat
  | Flag nat
  | Leave nat

text \<open>
  \<open>Acquire i\<close>: operation \<open>i\<close> calls \<^verbatim>\<open>initBrowser\<close>, which runs to its first await or
  to its return (lines 436 to 446, or 460).
\<close>

definition acquire :: "nat \<Rightarrow> manager \<Rightarrow> manager" where
  "acquire i m =
     (case (if isInitializingM m then initPromiseM m else None) of
        Some k \<Rightarrow> m\<lparr>ops := (ops m)(i := Joined k)\<rparr>
      | None \<Rightarrow>
          (case (case browserM m of
                   None \<Rightarrow> None
                 | Some h \<Rightarrow> if h \<notin> live m \<or> browserDisconnectedM m then None else Some h) of
             Some h \<Rightarrow> m\<lparr>ops := (ops m)(i := Rendering h)\<rparr>
           | None \<Rightarrow>
               m\<lparr>isInitializingM := True, browserDisconnectedM := False,
                 promises := (promises m)(nextPromise m := Pending),
                 initPromiseM := Some (nextPromise m),
                 nextPromise := nextPromise m + 1,
                 ops := (ops m)(i := Creating (nextPromise m))\<rparr>))"

text \<open>
  \<open>Resume i\<close>: the promise that operation \<open>i\<close> awaits has settled. The creator runs
  lines 446 to 460, or 455 to 457; the caller then tests \<^verbatim>\<open>browser.connected\<close> at line
  484, or is in its \<^verbatim>\<open>catch\<close> block.
\<close>

definition afterInit :: "handle \<Rightarrow> manager \<Rightarrow> pc" where
  "afterInit h m = (if h \<in> live m then Rendering h else Caught ''Browser is not connected'')"

definition resume :: "nat \<Rightarrow> manager \<Rightarrow> manager option" where
  "resume i m =
     (case ops m i of
        Creating k \<Rightarrow>
          (case promises m k of
             Fulfilled h \<Rightarrow>
               Some (m\<lparr>browserM := Some h, isInitializingM := False,
                       listening := insert h (listening m),
                       ops := (ops m)(i := afterInit h m)\<rparr>)
           | Rejected msg \<Rightarrow>
               Some (m\<lparr>isInitializingM := False, browserDisconnectedM := True,
                       ops := (ops m)(i := Caught msg)\<rparr>)
           | _ \<Rightarrow> None)
      | Joined k \<Rightarrow>
          (case promises m k of
             Fulfilled h \<Rightarrow> Some (m\<lparr>ops := (ops m)(i := afterInit h m)\<rparr>)
           | Rejected msg \<Rightarrow> Some (m\<lparr>ops := (ops m)(i := Caught msg)\<rparr>)
           | _ \<Rightarrow> None)
      | _ \<Rightarrow> None)"

text \<open>
  \<open>Handle i\<close>: the \<^verbatim>\<open>catch\<close> block after \<^verbatim>\<open>page.close()\<close>, lines 561 to 568, into
  \<^verbatim>\<open>closeBrowser\<close> up to its await if the message calls for it; otherwise the operation
  waits and stands before its next attempt.
\<close>

definition handleFailure :: "nat \<Rightarrow> string \<Rightarrow> manager \<Rightarrow> manager" where
  "handleFailure i msg m =
     (if isBrowserFault msg
      then (case browserM m of
              Some b \<Rightarrow> m\<lparr>ops := (ops m)(i := Closing b)\<rparr>
            | None \<Rightarrow> m\<lparr>ops := (ops m)(i := Flagging)\<rparr>)
      else m\<lparr>ops := (ops m)(i := Ready)\<rparr>)"

text \<open>
  One step. \<open>None\<close>: the step cannot be taken in this state. \<open>Disconnect h\<close> is the
  exit of process \<open>h\<close>; the listener, if the browser has one, sets the flag and clears
  \<^verbatim>\<open>this.browser\<close> whichever browser that field holds. \<open>CloseDone\<close> is the
  \<^verbatim>\<open>finally\<close> of \<^verbatim>\<open>closeBrowser\<close>, \<open>Flag\<close> line 569.
\<close>

fun fire :: "action \<Rightarrow> manager \<Rightarrow> manager option" where
  "fire (Arrive i) m = (if ops m i = Absent then Some (m\<lparr>ops := (ops m)(i := Ready)\<rparr>) else None)"
| "fire (Acquire i) m = (if ops m i = Ready then Some (acquire i m) else None)"
| "fire (LaunchOk k) m =
     (if promises m k = Pending
      then Some (m\<lparr>promises := (promises m)(k := Fulfilled (nextProcess m)),
                   live := insert (nextProcess m) (live m),
                   nextProcess := nextProcess m + 1\<rparr>)
      else None)"
| "fire (LaunchErr k msg) m =
     (if promises m k = Pending then Some (m\<lparr>promises := (promises m)(k := Rejected msg)\<rparr>)
      else None)"
| "fire (Resume i) m = resume i m"
| "fire (Disconnect h) m =
     (if h \<in> live m
      then Some (if h \<in> listening m
                 then m\<lparr>live := live m - {h}, browserDisconnectedM := True, browserM := None\<rparr>
                 else m\<lparr>live := live m - {h}\<rparr>)
      else None)"
| "fire (Succeed i) m =
     (case ops m i of Rendering h \<Rightarrow> Some (m\<lparr>ops := (ops m)(i := Absent)\<rparr>) | _ \<Rightarrow> None)"
| "fire (Fail i msg) m =
     (case ops m i of Rendering h \<Rightarrow> Some (m\<lparr>ops := (ops m)(i := Caught msg)\<rparr>) | _ \<Rightarrow> None)"
| "fire (Handle i) m =
     (case ops m i of Caught msg \<Rightarrow> Some (handleFailure i msg m) | _ \<Rightarrow> None)"
| "fire (CloseDone i) m =
     (case ops m i of
        Closing b \<Rightarrow>
          Some (m\<lparr>browserM := None, browserDisconnectedM := True, ops := (ops m)(i := Flagging)\<rparr>)
      | _ \<Rightarrow> None)"
| "fire (Flag i) m =
     (case ops m i of
        Flagging \<Rightarrow> Some (m\<lparr>browserDisconnectedM := True, ops := (ops m)(i := Ready)\<rparr>)
      | _ \<Rightarrow> None)"
| "fire (Leave i) m = (if ops m i = Ready then Some (m\<lparr>ops := (ops m)(i := Absent)\<rparr>) else None)"

text \<open>A run: the steps of a list, one after the other, from a state.\<close>

fun run :: "action list \<Rightarrow> manager \<Rightarrow> manager option" where
  "run [] m = Some m"
| "run (a # as) m = (case fire a m of None \<Rightarrow> None | Some m' \<Rightarrow> run as m')"

definition reachable :: "manager \<Rightarrow> bool" where
  "reachable m = (\<exists>as. run as initialManager = Some m)"

text \<open>
  The invariant behind the single creation in flight: a pending promise belongs to an
  operation suspended at line 446, there is at most one such operation, and while there
  is one \<^verbatim>\<open>isInitializing\<close> is set and \<^verbatim>\<open>initPromise\<close> holds a promise.
\<close>

definition creationInvariant :: "manager \<Rightarrow> bool" where
  "creationInvariant m =
     ((\<forall>k. promises m k = Pending \<longrightarrow> (\<exists>i. ops m i = Creating k))
      \<and> (\<forall>i j k k'. ops m i = Creating k \<and> ops m j = Creating k' \<longrightarrow> i = j)
      \<and> (\<forall>i k. ops m i = Creating k \<longrightarrow> isInitializingM m \<and> initPromiseM m \<noteq> None))"

text \<open>
  The race. Operation 0 renders on browser 1 when that browser disconnects; operation 1
  arrives and starts a launch; operation 0 then fails on its page with a message of the
  kind that discards the browser, finds nothing to close, and sets the flag at line 569
  while the launch is still running; the launch ends and operation 1 goes on with browser
  2; operation 0 comes back for its second attempt, finds the flag set, and launches
  browser 3.
\<close>

definition raceTrace :: "action list" where
  "raceTrace =
     [Arrive 0, Acquire 0, LaunchOk 0, Resume 0,
      Disconnect 1,
      Arrive 1, Acquire 1,
      Fail 0 ''Protocol error (Page.printToPDF): Target closed'', Handle 0, Flag 0,
      LaunchOk 1, Resume 1,
      Acquire 0, LaunchOk 2, Resume 0]"



section \<open>Admission and calls that overlap\<close>

text \<open>
  The counter \<^verbatim>\<open>activePages\<close> alone, for several calls of
  \<^verbatim>\<open>generatePurchaseOrderPDF\<close> at once. A caller is outside; or admitted, past the test
  of line 464 and not holding a slot (it awaits the rates or \<^verbatim>\<open>initBrowser\<close>, or waits
  before its next attempt); or holding a slot, between line 488 and the end of the
  attempt; or turned away by the test. Each caller has its own variable \<^verbatim>\<open>attempt\<close>.
\<close>

datatype slot = Outside | Admitted | Holding | TurnedAway

record admission =
  activePagesA :: int
  callers :: "nat \<Rightarrow> slot"
  attemptA :: "nat \<Rightarrow> nat"

definition initialAdmission :: admission where
  "initialAdmission = \<lparr>activePagesA = 0, callers = (\<lambda>i. Outside), attemptA = (\<lambda>i. 0)\<rparr>"

text \<open>
  The steps of a caller, each a stretch of the source in which nothing else can touch the
  counter. \<open>Call\<close>: the test of lines 464 to 468, made once and outside the loop, and
  \<^verbatim>\<open>attempt = 0\<close>. \<open>Enter\<close>: line 478 and lines 483 to 488 of an attempt that got its
  browser. \<open>Finish\<close>: lines 539 to 549. \<open>FailBefore\<close>: line 478, an attempt that throws
  at line 483 or 485, and the \<^verbatim>\<open>catch\<close> block with its line 561. \<open>FailAfter\<close>: an
  attempt that throws after line 488, and the same block. After the \<^verbatim>\<open>catch\<close> block
  the caller has left with the error of line 573 if that was its last attempt, and waits
  for the next one otherwise.
\<close>

datatype admission_step =
    Call nat
  | Enter nat
  | Finish nat
  | FailBefore nat
  | FailAfter nat

definition afterCatch :: "nat \<Rightarrow> slot" where
  "afterCatch attempt = (if attempt \<ge> maxRetries then Outside else Admitted)"

fun admit :: "admission_step \<Rightarrow> admission \<Rightarrow> admission option" where
  "admit (Call i) a =
     (if callers a i = Outside
      then Some (if activePagesA a \<ge> maxConcurrentPages
                 then a\<lparr>callers := (callers a)(i := TurnedAway)\<rparr>
                 else a\<lparr>callers := (callers a)(i := Admitted), attemptA := (attemptA a)(i := 0)\<rparr>)
      else None)"
| "admit (Enter i) a =
     (if callers a i = Admitted
      then Some (a\<lparr>activePagesA := activePagesA a + 1, callers := (callers a)(i := Holding),
                   attemptA := (attemptA a)(i := attemptA a i + 1)\<rparr>)
      else None)"
| "admit (Finish i) a =
     (if callers a i = Holding
      then Some (a\<lparr>activePagesA := activePagesA a - 1, callers := (callers a)(i := Outside)\<rparr>)
      else None)"
| "admit (FailBefore i) a =
     (if callers a i = Admitted
      then Some (a\<lparr>activePagesA := max 0 (activePagesA a - 1),
                   callers := (callers a)(i := afterCatch (attemptA a i + 1)),
                   attemptA := (attemptA a)(i := attemptA a i + 1)\<rparr>)
      else None)"
| "admit (FailAfter i) a =
     (if callers a i = Holding
      then Some (a\<lparr>activePagesA := max 0 (activePagesA a - 1),
                   callers := (callers a)(i := afterCatch (attemptA a i))\<rparr>)
      else None)"

fun admitAll :: "admission_step list \<Rightarrow> admission \<Rightarrow> admission option" where
  "admitAll [] a = Some a"
| "admitAll (step # steps) a = (case admit step a of None \<Rightarrow> None | Some a' \<Rightarrow> admitAll steps a')"

text \<open>
  Two interleavings. In the first, caller 0 holds a slot; caller 2 is admitted and its
  first attempt fails before line 488 (the browser has gone and the launch fails), which
  lowers the counter all the same; caller 1 is admitted and takes a slot; caller 3 calls.
  In the second, three callers pass the test before any of them has reached line 488,
  then all three take a slot, and a fourth calls.
\<close>

definition underCountTrace :: "admission_step list" where
  "underCountTrace = [Call 0, Enter 0, Call 2, FailBefore 2, Call 1, Enter 1, Call 3]"

definition burstTrace :: "admission_step list" where
  "burstTrace = [Call 0, Call 1, Call 2, Enter 0, Enter 1, Enter 2, Call 3]"

text \<open>A service whose counter stands at 3, as after the second interleaving.\<close>

definition overfullService :: pdfService where
  "overfullService = warmService\<lparr>activePages := 3\<rparr>"

section \<open>Properties\<close>

text \<open>
  C9. The terms-and-conditions section is forced onto a new page exactly when the request
  has more than 8 line items: the decision is true for 9 items and false for 8, and the
  terms section carries the class \<^verbatim>\<open>new-page\<close> exactly in the first case.
\<close>

theorem shouldBreakPage_iff_more_than_8:
  "shouldBreakPage items = (8 < length items)
   \<and> termsSectionClass items =
       (if 8 < length items then ''terms-section new-page'' else ''terms-section '')
   \<and> shouldBreakPage (replicate 8 item) = False
   \<and> shouldBreakPage (replicate 9 item) = True"
  by (simp add: shouldBreakPage_def termsSectionClass_def)

subsection \<open>Numbered-list markers and the pieces of a term\<close>

lemma dot_not_digit: "\<not> isDigit (CHR ''.'')"
  by (simp add: isDigit_def)

lemma startsMarker_Nil: "startsMarker [] = False"
  by (simp add: startsMarker_def matchDigitsDot_def)

lemma startsMarker_Cons:
  "startsMarker (c # cs) =
     (isDigit c \<and> (case cs of [] \<Rightarrow> False | d # _ \<Rightarrow> d = CHR ''.'' \<or> startsMarker cs))"
proof (cases cs)
  case Nil
  then show ?thesis by (simp add: startsMarker_def matchDigitsDot_def)
next
  case (Cons d ds)
  show ?thesis
  proof (cases "isDigit c")
    case False
    then show ?thesis by (simp add: startsMarker_def matchDigitsDot_def)
  next
    case c: True
    show ?thesis
    proof (cases "isDigit d")
      case True
      with c Cons show ?thesis
        using dot_not_digit by (auto simp: startsMarker_def matchDigitsDot_def)
    next
      case False
      with c Cons show ?thesis
        by (simp add: startsMarker_def matchDigitsDot_def)
    qed
  qed
qed

lemma hasMarker_Cons: "hasMarker (c # cs) = (startsMarker (c # cs) \<or> hasMarker cs)"
  by (simp add: startsMarker_def)

lemma startsMarker_append: "startsMarker p \<Longrightarrow> startsMarker (p @ q)"
proof (induction p)
  case Nil
  then show ?case by (simp add: startsMarker_Nil)
next
  case (Cons c p)
  then show ?case by (cases p) (auto simp: startsMarker_Cons startsMarker_Nil)
qed

lemma hasMarker_append1: "hasMarker p \<Longrightarrow> hasMarker (p @ q)"
proof (induction p)
  case Nil
  then show ?case by simp
next
  case (Cons c p)
  have "startsMarker (c # p) \<or> hasMarker p" using Cons.prems by (simp only: hasMarker_Cons)
  then show ?case
  proof
    assume "startsMarker (c # p)"
    then have "startsMarker ((c # p) @ q)" by (rule startsMarker_append)
    then show ?thesis by (simp del: hasMarker.simps add: hasMarker_Cons)
  next
    assume "hasMarker p"
    then have "hasMarker (p @ q)" by (rule Cons.IH)
    then show ?thesis by (simp del: hasMarker.simps add: hasMarker_Cons)
  qed
qed

lemma hasMarker_append2: "hasMarker q \<Longrightarrow> hasMarker (p @ q)"
  by (induction p) (simp_all del: hasMarker.simps add: hasMarker_Cons)

lemma stripEdges_decomp: "\<exists>p q. s = p @ stripEdges C s @ q"
proof -
  let ?m = "dropWhile C s"
  have "stripEdges C s @ rev (takeWhile C (rev ?m))
          = rev (takeWhile C (rev ?m) @ dropWhile C (rev ?m))"
    by (simp only: rev_append stripEdges_def)
  also have "\<dots> = rev (rev ?m)" by (simp only: takeWhile_dropWhile_id)
  finally have m: "?m = stripEdges C s @ rev (takeWhile C (rev ?m))" by simp
  have "s = takeWhile C s @ ?m" by simp
  with m have "s = takeWhile C s @ stripEdges C s @ rev (takeWhile C (rev ?m))" by simp
  then show ?thesis by blast
qed

lemma hasMarker_stripEdges: "hasMarker (stripEdges C s) \<Longrightarrow> hasMarker s"
proof -
  assume h: "hasMarker (stripEdges C s)"
  obtain p q where s: "s = p @ stripEdges C s @ q" using stripEdges_decomp by blast
  have "hasMarker (p @ stripEdges C s @ q)"
    by (rule hasMarker_append2, rule hasMarker_append1, rule h)
  then show ?thesis using s by simp
qed

lemma hasMarker_trim: "hasMarker (trim s) \<Longrightarrow> hasMarker s"
  unfolding trim_def by (rule hasMarker_stripEdges)

lemma startsMarker_snoc:
  "startsMarker (xs @ [c]) \<Longrightarrow> startsMarker xs \<or> (xs \<noteq> [] \<and> isDigit (last xs) \<and> c = CHR ''.'')"
proof (induction xs)
  case Nil
  then show ?case by (simp add: startsMarker_Cons)
next
  case (Cons x xs)
  show ?case
  proof (cases xs)
    case Nil
    with Cons.prems show ?thesis by (simp add: startsMarker_Cons startsMarker_Nil)
  next
    case (Cons y ys)
    with Cons.prems Cons.IH show ?thesis by (auto simp: startsMarker_Cons)
  qed
qed

lemma hasMarker_snoc:
  "hasMarker (xs @ [c]) \<Longrightarrow> hasMarker xs \<or> (xs \<noteq> [] \<and> isDigit (last xs) \<and> c = CHR ''.'')"
proof (induction xs)
  case Nil
  then show ?case using startsMarker_Cons [of c "[]"] by (simp add: startsMarker_def)
next
  case (Cons x xs)
  from Cons.prems have "startsMarker ((x # xs) @ [c]) \<or> hasMarker (xs @ [c])"
    by (simp del: hasMarker.simps add: hasMarker_Cons)
  then show ?case
  proof
    assume "startsMarker ((x # xs) @ [c])"
    from startsMarker_snoc [OF this] show ?thesis
      by (auto simp del: hasMarker.simps simp: hasMarker_Cons)
  next
    assume "hasMarker (xs @ [c])"
    from Cons.IH [OF this] show ?thesis
      by (auto simp del: hasMarker.simps simp: hasMarker_Cons)
  qed
qed

lemma digit_not_whitespace: "isDigit c \<Longrightarrow> \<not> isWhitespace c"
  by (auto simp: isDigit_def isWhitespace_def)

lemma matchMarker_digit_dot: "isDigit c \<Longrightarrow> matchMarker (c # CHR ''.'' # r) \<noteq> None"
  using dot_not_digit by (simp add: matchMarker_def matchDigitsDot_def digit_not_whitespace)

lemma splitFrom_marker_free:
  "\<not> hasMarker (rev cur) \<Longrightarrow> (cur \<noteq> [] \<and> isDigit (hd cur) \<longrightarrow> s = [] \<or> hd s \<noteq> CHR ''.'')
   \<Longrightarrow> seg \<in> set (splitFrom cur s) \<Longrightarrow> \<not> hasMarker seg"
proof (induction cur s rule: splitFrom.induct)
  case (1 cur)
  then show ?case by simp
next
  case (2 cur c cs)
  show ?case
  proof (cases "matchMarker (c # cs)")
    case (Some rest)
    with "2.prems"(3) have "seg = rev cur \<or> seg \<in> set (splitFrom [] rest)" by simp
    then show ?thesis
    proof
      assume "seg = rev cur"
      with "2.prems"(1) show ?thesis by simp
    next
      assume "seg \<in> set (splitFrom [] rest)"
      with "2.IH"(2) [OF Some] show ?thesis by simp
    qed
  next
    case None
    with "2.prems"(3) have seg: "seg \<in> set (splitFrom (c # cur) cs)" by simp
    have a: "\<not> hasMarker (rev (c # cur))"
    proof
      assume "hasMarker (rev (c # cur))"
      then have "hasMarker (rev cur @ [c])" by simp
      from hasMarker_snoc [OF this] "2.prems"(1)
      have "rev cur \<noteq> [] \<and> isDigit (last (rev cur)) \<and> c = CHR ''.''" by blast
      then have "cur \<noteq> [] \<and> isDigit (hd cur) \<and> c = CHR ''.''" by (simp add: last_rev)
      with "2.prems"(2) show False by simp
    qed
    have b: "(c # cur \<noteq> [] \<and> isDigit (hd (c # cur)) \<longrightarrow> cs = [] \<or> hd cs \<noteq> CHR ''.'')"
    proof (intro impI)
      assume "c # cur \<noteq> [] \<and> isDigit (hd (c # cur))"
      then have d: "isDigit c" by simp
      show "cs = [] \<or> hd cs \<noteq> CHR ''.''"
      proof (cases cs)
        case Nil
        then show ?thesis by simp
      next
        case (Cons y ys)
        with None matchMarker_digit_dot [OF d, of ys] show ?thesis by auto
      qed
    qed
    from "2.IH"(1) [OF None a b seg] show ?thesis .
  qed
qed

lemma splitMarkers_marker_free: "seg \<in> set (splitMarkers s) \<Longrightarrow> \<not> hasMarker seg"
  unfolding splitMarkers_def by (rule splitFrom_marker_free [of "[]" s]) simp_all

lemma collapse_Nil_iff: "collapseWhitespace s = [] \<longleftrightarrow> s = []"
  by (cases s) simp_all

lemma collapse_hd: "s \<noteq> [] \<Longrightarrow> \<not> isWhitespace (hd s) \<Longrightarrow> hd (collapseWhitespace s) = hd s"
  by (cases s) simp_all

lemma hd_collapse_dot: "collapseWhitespace cs = d # r \<Longrightarrow> d = CHR ''.'' \<Longrightarrow> \<exists>r'. cs = d # r'"
  by (cases cs) (auto split: if_splits)

lemma last_dropWhile: "xs \<noteq> [] \<Longrightarrow> \<not> P (last xs) \<Longrightarrow> dropWhile P xs \<noteq> [] \<and> last (dropWhile P xs) = last xs"
  by (induction xs) (auto split: if_splits)

lemma collapse_last:
  "s \<noteq> [] \<Longrightarrow> \<not> isWhitespace (last s) \<Longrightarrow> last (collapseWhitespace s) = last s"
proof (induction s rule: collapseWhitespace.induct)
  case 1
  then show ?case by simp
next
  case (2 c cs)
  show ?case
  proof (cases "isWhitespace c")
    case True
    with "2.prems" have cs: "cs \<noteq> []" "\<not> isWhitespace (last cs)" by (auto split: if_splits)
    from last_dropWhile [of cs isWhitespace] cs have r: "dropWhile isWhitespace cs \<noteq> []"
      "last (dropWhile isWhitespace cs) = last cs" by simp_all
    from "2.IH"(1) [OF True r(1)] r(2) cs(2)
    have "last (collapseWhitespace (dropWhile isWhitespace cs)) = last cs" by simp
    with True r(1) cs show ?thesis by (auto simp: collapse_Nil_iff)
  next
    case False
    show ?thesis
    proof (cases cs)
      case Nil
      with False show ?thesis by simp
    next
      case (Cons y ys)
      with "2.prems" have "cs \<noteq> []" "\<not> isWhitespace (last cs)" by simp_all
      from "2.IH"(2) [OF False this] Cons False show ?thesis by (simp add: collapse_Nil_iff)
    qed
  qed
qed

lemma dropWhile_collapse_dropWhile:
  "dropWhile isWhitespace (collapseWhitespace (dropWhile isWhitespace cs))
     = collapseWhitespace (dropWhile isWhitespace cs)"
proof -
  have g: "r = [] \<or> \<not> isWhitespace (hd r)
           \<Longrightarrow> dropWhile isWhitespace (collapseWhitespace r) = collapseWhitespace r" for r
    by (cases r) auto
  show ?thesis by (rule g) (use hd_dropWhile [of isWhitespace cs] in blast)
qed

lemma collapse_idem: "collapseWhitespace (collapseWhitespace s) = collapseWhitespace s"
proof (induction s rule: collapseWhitespace.induct)
  case 1
  then show ?case by simp
next
  case (2 c cs)
  show ?case
  proof (cases "isWhitespace c")
    case True
    have sp: "isWhitespace (CHR 0x20)" by (simp add: isWhitespace_def)
    from True sp "2.IH"(1) [OF True] show ?thesis
      by (simp add: dropWhile_collapse_dropWhile)
  next
    case False
    with "2.IH"(2) show ?thesis by simp
  qed
qed

lemma startsMarker_collapse: "startsMarker (collapseWhitespace s) \<Longrightarrow> startsMarker s"
proof (induction s rule: collapseWhitespace.induct)
  case 1
  then show ?case by simp
next
  case (2 c cs)
  show ?case
  proof (cases "isWhitespace c")
    case True
    with "2.prems" show ?thesis
      using digit_not_whitespace [of "CHR 0x20"]
      by (simp add: startsMarker_Cons isWhitespace_def)
  next
    case False
    with "2.prems" have c: "isDigit c"
      and d: "case collapseWhitespace cs of [] \<Rightarrow> False
               | d # _ \<Rightarrow> d = CHR ''.'' \<or> startsMarker (collapseWhitespace cs)"
      by (simp_all add: startsMarker_Cons)
    from d obtain d' r where dr: "collapseWhitespace cs = d' # r"
      and alt: "d' = CHR ''.'' \<or> startsMarker (collapseWhitespace cs)"
      by (cases "collapseWhitespace cs") auto
    from alt show ?thesis
    proof
      assume "d' = CHR ''.''"
      with hd_collapse_dot [OF dr] c show ?thesis by (auto simp: startsMarker_Cons)
    next
      assume "startsMarker (collapseWhitespace cs)"
      from "2.IH"(2) [OF False this] have sm: "startsMarker cs" .
      then have "cs \<noteq> []" by (auto simp: startsMarker_Nil)
      with sm c show ?thesis by (cases cs) (auto simp: startsMarker_Cons)
    qed
  qed
qed

lemma hasMarker_dropWhile: "hasMarker (dropWhile P s) \<Longrightarrow> hasMarker s"
  using hasMarker_append2 [of "dropWhile P s" "takeWhile P s"] by simp

lemma hasMarker_collapse: "hasMarker (collapseWhitespace s) \<Longrightarrow> hasMarker s"
proof (induction s rule: collapseWhitespace.induct)
  case 1
  then show ?case by simp
next
  case (2 c cs)
  show ?case
  proof (cases "isWhitespace c")
    case True
    with "2.prems"
    have "startsMarker (CHR 0x20 # collapseWhitespace (dropWhile isWhitespace cs))
          \<or> hasMarker (collapseWhitespace (dropWhile isWhitespace cs))"
      by (simp del: hasMarker.simps add: hasMarker_Cons)
    moreover have "\<not> isDigit (CHR 0x20)" by (simp add: isDigit_def)
    ultimately have "hasMarker (collapseWhitespace (dropWhile isWhitespace cs))"
      by (simp add: startsMarker_Cons)
    from "2.IH"(1) [OF True this] have "hasMarker cs" by (rule hasMarker_dropWhile)
    then show ?thesis by simp
  next
    case False
    with "2.prems" have "startsMarker (collapseWhitespace (c # cs)) \<or> hasMarker (collapseWhitespace cs)"
      by (simp del: hasMarker.simps add: hasMarker_Cons)
    then show ?thesis
    proof
      assume "startsMarker (collapseWhitespace (c # cs))"
      then have "startsMarker (c # cs)" by (rule startsMarker_collapse)
      then show ?thesis by (simp del: hasMarker.simps add: hasMarker_Cons)
    next
      assume "hasMarker (collapseWhitespace cs)"
      from "2.IH"(2) [OF False this] show ?thesis by simp
    qed
  qed
qed

lemma stripEdges_edges:
  assumes "stripEdges C s \<noteq> []"
  shows "\<not> C (hd (stripEdges C s)) \<and> \<not> C (last (stripEdges C s))"
proof -
  let ?m = "dropWhile C s"
  let ?r = "dropWhile C (rev ?m)"
  from assms have r: "?r \<noteq> []" by (simp add: stripEdges_def)
  then have "\<not> C (hd ?r)" by (rule hd_dropWhile)
  with r have l: "\<not> C (last (stripEdges C s))" by (simp add: stripEdges_def last_rev)
  have "stripEdges C s @ rev (takeWhile C (rev ?m))
          = rev (takeWhile C (rev ?m) @ ?r)"
    by (simp only: rev_append stripEdges_def)
  also have "\<dots> = rev (rev ?m)" by (simp only: takeWhile_dropWhile_id)
  finally have m: "?m = stripEdges C s @ rev (takeWhile C (rev ?m))" by simp
  with assms have "hd ?m = hd (stripEdges C s)" by (metis hd_append2)
  moreover from r have "?m \<noteq> []" by (auto dest: set_dropWhileD)
  then have "\<not> C (hd ?m)" by (rule hd_dropWhile)
  ultimately show ?thesis using l by simp
qed

lemma stripEdges_id: "s \<noteq> [] \<Longrightarrow> \<not> C (hd s) \<Longrightarrow> \<not> C (last s) \<Longrightarrow> stripEdges C s = s"
proof -
  assume s: "s \<noteq> []" and h: "\<not> C (hd s)" and l: "\<not> C (last s)"
  from s h have a: "dropWhile C s = s" by (cases s) simp_all
  from s l have "dropWhile C (rev s) = rev s" by (simp add: dropWhile_eq_self_iff hd_rev)
  with a show ?thesis by (simp add: stripEdges_def)
qed

lemma unescapeQuotes_id: "\<not> hasEscapedQuote t \<Longrightarrow> unescapeQuotes t = t"
  by (induction t rule: unescapeQuotes.induct) auto

lemma splitFrom_nonempty: "splitFrom cur s \<noteq> []"
  by (induction cur s rule: splitFrom.induct) (auto split: option.splits)

lemma splitFrom_single: "length (splitFrom cur s) \<le> 1 \<Longrightarrow> splitFrom cur s = [rev cur @ s]"
proof (induction cur s rule: splitFrom.induct)
  case (1 cur)
  then show ?case by simp
next
  case (2 cur c cs)
  show ?case
  proof (cases "matchMarker (c # cs)")
    case None
    with "2.prems" "2.IH"(1) show ?thesis by simp
  next
    case (Some rest)
    with "2.prems" splitFrom_nonempty [of "[]" rest] show ?thesis
      by (cases "splitFrom [] rest") simp_all
  qed
qed

lemma splitNumbered_marker_free: "u \<in> set (splitNumbered c) \<Longrightarrow> \<not> hasMarker u"
proof (cases "hasMarker c")
  case False
  assume "u \<in> set (splitNumbered c)"
  with False show ?thesis by (simp add: splitNumbered_def)
next
  case True
  assume u: "u \<in> set (splitNumbered c)"
  show ?thesis
  proof (cases "length (splitMarkers c) > 1")
    case l: True
    with True u obtain seg where seg: "seg \<in> set (drop 1 (splitMarkers c))" and ut: "u = trim seg"
      by (auto simp: splitNumbered_def Let_def)
    from seg have "seg \<in> set (splitMarkers c)" by (rule in_set_dropD)
    then have "\<not> hasMarker seg" by (rule splitMarkers_marker_free)
    with ut show ?thesis using hasMarker_trim by blast
  next
    case False
    then have "length (splitFrom [] c) \<le> 1" by (simp add: splitMarkers_def)
    from splitFrom_single [OF this] have "splitMarkers c = [c]" by (simp add: splitMarkers_def)
    then have "c \<in> set (splitMarkers c)" by simp
    then have "\<not> hasMarker c" by (rule splitMarkers_marker_free)
    with True show ?thesis by simp
  qed
qed

lemma processArrayElement_marker_free: "u \<in> set (processArrayElement v) \<Longrightarrow> \<not> hasMarker u"
  by (cases v) (auto split: if_splits dest: splitNumbered_marker_free)

lemma whitespace_isQuoteCommaSpace: "isWhitespace c \<Longrightarrow> isQuoteCommaSpace c"
  by (simp add: isQuoteCommaSpace_def)

lemma cleanup_step_settled:
  assumes t: "t = trim (collapseWhitespace (stripEdges isQuoteCommaSpace u))"
    and ne: "t \<noteq> []" and nm: "\<not> hasMarker u"
  shows "settled t"
proof -
  let ?v = "stripEdges isQuoteCommaSpace u"
  let ?w = "collapseWhitespace ?v"
  have w: "?w \<noteq> []"
  proof
    assume "?w = []"
    with t have "t = []" by (simp add: trim_def stripEdges_def)
    with ne show False by simp
  qed
  then have v: "?v \<noteq> []" by (simp add: collapse_Nil_iff)
  from stripEdges_edges [OF v]
  have ev: "\<not> isQuoteCommaSpace (hd ?v)" "\<not> isQuoteCommaSpace (last ?v)" by simp_all
  then have wv: "\<not> isWhitespace (hd ?v)" "\<not> isWhitespace (last ?v)"
    using whitespace_isQuoteCommaSpace by blast+
  have hw: "hd ?w = hd ?v" by (rule collapse_hd [OF v wv(1)])
  have lw: "last ?w = last ?v" by (rule collapse_last [OF v wv(2)])
  have "trim ?w = ?w" unfolding trim_def
    by (rule stripEdges_id [OF w]) (simp_all add: hw lw wv)
  with t have tw: "t = ?w" by simp
  have "\<not> hasMarker ?w" using nm hasMarker_collapse hasMarker_stripEdges by blast
  with tw w ev hw lw show ?thesis by (simp add: settled_def collapse_idem)
qed

lemma finalCleanup_settled:
  "\<forall>u \<in> set ts. \<not> hasMarker u \<Longrightarrow> t \<in> set (finalCleanup ts) \<Longrightarrow> settled t"
  by (auto simp: finalCleanup_def intro: cleanup_step_settled)

lemma Normalize_settled: "t \<in> set (Normalize x) \<Longrightarrow> settled t"
  unfolding Normalize_def processArray_def
  by (rule finalCleanup_settled [rotated])
    (auto simp del: processArrayElement.simps dest: processArrayElement_marker_free)

lemma settled_element:
  assumes "settled t" "\<not> hasEdgeBracket t" "\<not> hasEscapedQuote t"
  shows "processArrayElement (JString t) = [t]"
    and "trim (collapseWhitespace (stripEdges isQuoteCommaSpace t)) = t"
proof -
  from assms(1) have ne: "t \<noteq> []" and h: "\<not> isQuoteCommaSpace (hd t)"
    and l: "\<not> isQuoteCommaSpace (last t)" and c: "collapseWhitespace t = t"
    and m: "\<not> hasMarker t" by (simp_all add: settled_def)
  from h l have ws: "\<not> isWhitespace (hd t)" "\<not> isWhitespace (last t)"
    using whitespace_isQuoteCommaSpace by blast+
  have tr: "trim t = t" unfolding trim_def by (rule stripEdges_id [OF ne ws])
  from h l assms(2) ne have qb: "\<not> isQuoteOrBracket (hd t)" "\<not> isQuoteOrBracket (last t)"
    by (auto simp: hasEdgeBracket_def isBracket_def isQuoteOrBracket_def isQuoteCommaSpace_def)
  have "stripEdges isQuoteOrBracket t = t" by (rule stripEdges_id [OF ne qb])
  then have "cleanArrayTerm t = t"
    by (simp add: cleanArrayTerm_def unescapeQuotes_id [OF assms(3)] tr)
  with ne tr m show "processArrayElement (JString t) = [t]"
    by (simp add: splitNumbered_def)
  have "stripEdges isQuoteCommaSpace t = t" by (rule stripEdges_id [OF ne h l])
  with c tr show "trim (collapseWhitespace (stripEdges isQuoteCommaSpace t)) = t" by simp
qed

lemma processArray_settled:
  assumes "\<forall>t \<in> set ts. settled t \<and> \<not> hasEdgeBracket t \<and> \<not> hasEscapedQuote t"
  shows "processArray (map JString ts) = ts"
proof -
  from assms have "concat (map processArrayElement (map JString ts)) = ts"
    by (induction ts) (simp_all del: processArrayElement.simps add: settled_element(1))
  moreover from assms
  have "map (\<lambda>t. trim (collapseWhitespace (stripEdges isQuoteCommaSpace t))) ts = ts"
    by (intro map_idI) (simp add: settled_element(2))
  moreover from assms have "filter (\<lambda>t. length t > 0) ts = ts"
    by (intro filter_True) (simp add: settled_def)
  ultimately show ?thesis by (simp add: processArray_def finalCleanup_def)
qed

text \<open>
  C7. On the specification's example the numbered-list step gives the two terms. The
  source drops the first segment of the split whatever it holds (\<^verbatim>\<open>slice(1)\<close>, under
  the comment "Remove first empty element"): where text precedes the first marker, that
  text is the first segment, it is not empty, and it is lost. For the array
  \<^verbatim>\<open>["Note: 1. First 2. Second"]\<close> the split yields \<^verbatim>\<open>Note:\<close>, \<^verbatim>\<open>First\<close> and
  \<^verbatim>\<open>Second\<close>, and the function returns only the last two.
\<close>

theorem numbered_split_drops_leading_text:
  "Normalize [''1. First term 2. Second term''] = [''First term'', ''Second term'']
   \<and> splitMarkers ''Note: 1. First 2. Second'' = [''Note:'', ''First'', ''Second'']
   \<and> Normalize [''Note: 1. First 2. Second''] = [''First'', ''Second'']
   \<and> processTermsAndConditions jsonParse (TString ''Note: 1. First 2. Second'')
       = [''First'', ''Second'']"
  by code_simp

text \<open>
  C8, as stated, fails: the first cleaning step of a later pass strips square brackets
  from the ends of a term, the final clean-up of the pass before does not. The array
  holding the one string \<^verbatim>\<open> [a\<close> (a space, a bracket, a letter) is normalised to
  \<^verbatim>\<open>[a\<close>, and that to \<^verbatim>\<open>a\<close>.
\<close>

theorem Normalize_not_idempotent_counterexample:
  "Normalize ['' [a''] = [''[a''] \<and> Normalize (Normalize ['' [a'']) = [''a'']
   \<and> Normalize (Normalize ['' [a'']) \<noteq> Normalize ['' [a'']"
  by code_simp

text \<open>
  C8, amended. \<open>Normalize (Normalize x) = Normalize x\<close> for every array of strings
  \<open>x\<close> such that no term of \<open>Normalize x\<close> begins or ends with a square bracket or
  contains a backslash followed by a double quote.
\<close>

theorem Normalize_idempotent_without_brackets:
  assumes "\<forall>t \<in> set (Normalize x). \<not> hasEdgeBracket t \<and> \<not> hasEscapedQuote t"
  shows "Normalize (Normalize x) = Normalize x"
proof -
  have "processArray (map JString (Normalize x)) = Normalize x"
    by (rule processArray_settled) (use assms Normalize_settled in blast)
  then show ?thesis by (simp add: Normalize_def)
qed

theorem Normalize_idempotent_without_brackets_witness:
  "Normalize ['',1. First term  2. Second term'', ''a   b,'']
     = [''First term'', ''Second term'', ''a b'']
   \<and> Normalize (Normalize ['',1. First term  2. Second term'', ''a   b,''])
       = Normalize ['',1. First term  2. Second term'', ''a   b,'']"
proof -
  have v: "Normalize ['',1. First term  2. Second term'', ''a   b,'']
             = [''First term'', ''Second term'', ''a b'']"
    by code_simp
  have h: "\<forall>t \<in> set (Normalize ['',1. First term  2. Second term'', ''a   b,'']).
      \<not> hasEdgeBracket t \<and> \<not> hasEscapedQuote t"
    unfolding v by code_simp
  from v Normalize_idempotent_without_brackets [OF h] show ?thesis by (rule conjI)
qed

subsection \<open>Currency formatting\<close>






subsection \<open>Exchange-rate cache\<close>





text \<open>
  C10. The test for a cache hit reads the timestamp only. When a call for the base \<open>b1\<close>
  misses the cache and fetches the table \<open>r1\<close> at a time \<open>t1\<close> other than 0, a call for
  any base \<open>b2\<close> less than \<^verbatim>\<open>cacheValidityMs\<close> later returns \<open>r1\<close>, the table for
  \<open>b1\<close>, and makes no request, whatever the network would have answered for \<open>b2\<close>.
\<close>

theorem getExchangeRates_hit_ignores_base:
  assumes "\<not> cacheIsValid t1 cache" and "t1 \<noteq> 0" and "fetch b1 = Body (Some r1)"
    and "t2 - t1 < cacheValidityMs cache"
  shows "getExchangeRates quo fetch t1 cache b1
           = (r1, cache\<lparr>rates := r1, lastUpdated := Some t1\<rparr>, [b1])
         \<and> getExchangeRates quo' fetch' t2 (cache\<lparr>rates := r1, lastUpdated := Some t1\<rparr>) b2
           = (r1, cache\<lparr>rates := r1, lastUpdated := Some t1\<rparr>, [])"
  using assms by (simp add: getExchangeRates_def cacheIsValid_def)

theorem getExchangeRates_hit_ignores_base_witness:
  "getExchangeRates (/) fetchLive 1000 initialCache ''INR''
     = ([(''INR'', Num 1), (''USD'', Num 0.012)],
        initialCache\<lparr>rates := [(''INR'', Num 1), (''USD'', Num 0.012)], lastUpdated := Some 1000\<rparr>,
        [''INR''])
   \<and> getExchangeRates (/) fetchLive 2000
        (initialCache\<lparr>rates := [(''INR'', Num 1), (''USD'', Num 0.012)], lastUpdated := Some 1000\<rparr>)
        ''USD''
     = ([(''INR'', Num 1), (''USD'', Num 0.012)],
        initialCache\<lparr>rates := [(''INR'', Num 1), (''USD'', Num 0.012)], lastUpdated := Some 1000\<rparr>, [])
   \<and> fetchLive ''USD'' = Body (Some [(''INR'', Num 83), (''USD'', Num 1)])"
proof -
  have 1: "\<not> cacheIsValid 1000 initialCache" by (simp add: cacheIsValid_def initialCache_def)
  have 2: "(1000::int) \<noteq> 0" by simp
  have 3: "fetchLive ''INR'' = Body (Some [(''INR'', Num 1), (''USD'', Num 0.012)])"
    by (simp add: fetchLive_def)
  have 4: "(2000::int) - 1000 < cacheValidityMs initialCache" by (simp add: initialCache_def)
  have 5: "fetchLive ''USD'' = Body (Some [(''INR'', Num 83), (''USD'', Num 1)])"
    by (simp add: fetchLive_def)
  from getExchangeRates_hit_ignores_base
         [where fetch = fetchLive and ?b1.0 = "''INR''" and ?t1.0 = 1000 and cache = initialCache
            and ?r1.0 = "[(''INR'', Num 1), (''USD'', Num 0.012)]" and ?t2.0 = 2000
            and fetch' = fetchLive and ?b2.0 = "''USD''" and quo = "(/)" and quo' = "(/)",
          OF 1 2 3 4] 5
  show ?thesis by blast
qed

subsection \<open>Render pipeline\<close>







lemma launchCount_events [simp]:
  "launchCount (w\<lparr>events := evs\<rparr>) = length (filter isLaunched evs)"
  by (simp add: launchCount_def)


text \<open>
  C1. The terminal error has the form the claim gives, and a page opened in an attempt has
  \<^verbatim>\<open>close()\<close> called on it. The counter is the part that fails: the \<^verbatim>\<open>catch\<close> block
  subtracts one from \<^verbatim>\<open>activePages\<close> for every failed attempt, also for one that failed
  before line 488 had added one, and only the clamp at 0 hides it. When a request arrives
  while another operation holds a slot (the counter is 1), the cached browser is gone
  (its \<^verbatim>\<open>disconnected\<close> listener has run) and the launch fails at each of the three
  attempts, the request ends with the terminal error and the counter at 0: the slot of
  the other operation has been given back, and the counter is not at its value before the
  call.
\<close>

theorem exhausted_run_gives_back_a_slot_it_never_took:
  "generatePurchaseOrderPDF (/) fetchDown 1000 launchAlwaysFails
     (newService\<lparr>activePages := 1, browserDisconnected := True\<rparr>, newWorld)
   = (Inl ''PDF generation failed after 3 attempts: Failed to launch the browser process'',
      newService\<lparr>initPromise := Some (Inl ''Failed to launch the browser process''),
                 activePages := 0, browserDisconnected := True\<rparr>,
      newWorld\<lparr>events :=
        [RatesRequested ''INR'',
         LaunchFailed ''Failed to launch the browser process'', Waited 1000,
         LaunchFailed ''Failed to launch the browser process'', Waited 2000,
         LaunchFailed ''Failed to launch the browser process'']\<rparr>)"
  by code_simp









lemma generate_admitted:
  "activePages s < maxConcurrentPages \<Longrightarrow>
   generatePurchaseOrderPDF quo fetch now env (s, w)
     = retryLoop env 0 None (ratesFetched quo fetch now (s, w))"
  by (simp add: generatePurchaseOrderPDF_def ratesFetched_def split: prod.splits)











lemma rejected_when_counter_is_two:
  assumes "activePages s = 2"
  shows "generatePurchaseOrderPDF quo fetch now env (s, w)
           = (Inl ''Too many concurrent PDF operations (2/2)'', s, w)"
    and "activePages (fst (completeAttempt p (s, w))) = 1"
    and "activePages (fst (onFailure msg page (s, w))) = 1"
proof -
  have m: "tooManyMessage 2 = ''Too many concurrent PDF operations (2/2)''" by code_simp
  from assms show "generatePurchaseOrderPDF quo fetch now env (s, w)
       = (Inl ''Too many concurrent PDF operations (2/2)'', s, w)"
    by (simp add: generatePurchaseOrderPDF_def maxConcurrentPages_def m)
  from assms show "activePages (fst (completeAttempt p (s, w))) = 1"
    by (simp add: completeAttempt_def)
  from assms show "activePages (fst (onFailure msg page (s, w))) = 1"
    by (simp add: onFailure_def closeBrowser_def Let_def split: option.splits prod.splits)
qed

lemma admitted_when_counter_is_one:
  assumes "activePages s = 1"
  shows "generatePurchaseOrderPDF quo fetch now env (s, w)
           = retryLoop env 0 None (ratesFetched quo fetch now (s, w))"
  using assms by (simp add: generate_admitted maxConcurrentPages_def)

text \<open>
  C3. The claim holds of the counter and fails of the operations. A call that finds
  \<^verbatim>\<open>activePages\<close> at 2 or more throws at once, the service and the world as before
  (no rate asked for, no attempt, no wait), and a call that finds it at 1 is admitted. But
  the counter is not the number of operations holding a slot. After \<open>underCountTrace\<close>
  callers 0 and 1 both hold a slot, between line 488 and the end of their attempt, the
  counter stands at 1 because the \<^verbatim>\<open>catch\<close> block of caller 2 lowered it for an attempt
  that had not raised it, and the call of caller 3 is admitted. After \<open>burstTrace\<close>
  three callers hold a slot and the counter stands at 3, because the test of line 464 and
  the increment of line 488 are two awaits apart; only the fourth is turned away, with
  \<^verbatim>\<open>(3/2)\<close> in its message.
\<close>

theorem third_request_admitted_while_two_hold_slots:
  "(case admitAll (butlast underCountTrace) initialAdmission of
      None \<Rightarrow> False
    | Some a \<Rightarrow> callers a 0 = Holding \<and> callers a 1 = Holding \<and> callers a 3 = Outside
                 \<and> activePagesA a = 1)
   \<and> (case admitAll underCountTrace initialAdmission of
      None \<Rightarrow> False
    | Some a \<Rightarrow> callers a 0 = Holding \<and> callers a 1 = Holding \<and> callers a 3 = Admitted
                 \<and> activePagesA a = 1)
   \<and> (case admitAll burstTrace initialAdmission of
      None \<Rightarrow> False
    | Some a \<Rightarrow> callers a 0 = Holding \<and> callers a 1 = Holding \<and> callers a 2 = Holding
                 \<and> callers a 3 = TurnedAway \<and> activePagesA a = 3)
   \<and> generatePurchaseOrderPDF (/) fetchDown 1000 alwaysWell (busyService, warmWorld)
       = (Inl ''Too many concurrent PDF operations (2/2)'', busyService, warmWorld)
   \<and> generatePurchaseOrderPDF (/) fetchDown 1000 alwaysWell (overfullService, warmWorld)
       = (Inl ''Too many concurrent PDF operations (3/2)'', overfullService, warmWorld)"
  by code_simp


subsection \<open>Calls of \<^verbatim>\<open>initBrowser\<close> that overlap\<close>

lemma creationInvariant_initial: "creationInvariant initialManager"
  by (simp add: creationInvariant_def initialManager_def)

lemma no_creator_no_pending:
  "creationInvariant m \<Longrightarrow> \<not> (isInitializingM m \<and> initPromiseM m \<noteq> None)
   \<Longrightarrow> (\<forall>i k. ops m i \<noteq> Creating k) \<and> (\<forall>k. promises m k \<noteq> Pending)"
  unfolding creationInvariant_def by blast

lemma creationInvariant_same:
  assumes "creationInvariant m" and "promises m' = promises m" and "ops m' = ops m"
    and "isInitializingM m' = isInitializingM m" and "initPromiseM m' = initPromiseM m"
  shows "creationInvariant m'"
  using assms unfolding creationInvariant_def by simp

lemma creationInvariant_move:
  assumes inv: "creationInvariant m"
    and old: "\<And>k. ops m i \<noteq> Creating k" and new: "\<And>k. p \<noteq> Creating k"
    and "promises m' = promises m" and o: "ops m' = (ops m)(i := p)"
    and "isInitializingM m' = isInitializingM m" and "initPromiseM m' = initPromiseM m"
  shows "creationInvariant m'"
proof -
  have c: "ops m' j = Creating k \<longleftrightarrow> ops m j = Creating k" for j k
    using old new by (simp add: o)
  from inv show ?thesis unfolding creationInvariant_def c assms(4,6,7) .
qed

lemma creationInvariant_acquire:
  assumes inv: "creationInvariant m" and r: "ops m i = Ready"
  shows "creationInvariant (acquire i m)"
proof (cases "isInitializingM m \<and> initPromiseM m \<noteq> None")
  case True
  then obtain k where k: "initPromiseM m = Some k" by auto
  with True have a: "acquire i m = m\<lparr>ops := (ops m)(i := Joined k)\<rparr>"
    by (simp add: acquire_def)
  show ?thesis unfolding a
    by (rule creationInvariant_move [OF inv, where i = i and p = "Joined k"]) (simp_all add: r)
next
  case False
  from no_creator_no_pending [OF inv False]
  have nc: "\<And>j k. ops m j \<noteq> Creating k" and np: "\<And>k. promises m k \<noteq> Pending" by blast+
  from False have sel: "(if isInitializingM m then initPromiseM m else None) = None" by auto
  show ?thesis
  proof (cases "case browserM m of None \<Rightarrow> None
                 | Some h \<Rightarrow> if h \<notin> live m \<or> browserDisconnectedM m then None else Some h")
    case (Some h)
    then have a: "acquire i m = m\<lparr>ops := (ops m)(i := Rendering h)\<rparr>"
      by (simp add: acquire_def sel)
    show ?thesis unfolding a
      by (rule creationInvariant_move [OF inv, where i = i and p = "Rendering h"]) (simp_all add: r)
  next
    case None
    then have a: "acquire i m =
               m\<lparr>isInitializingM := True, browserDisconnectedM := False,
                 promises := (promises m)(nextPromise m := Pending),
                 initPromiseM := Some (nextPromise m),
                 nextPromise := nextPromise m + 1,
                 ops := (ops m)(i := Creating (nextPromise m))\<rparr>"
      by (simp add: acquire_def sel)
    from nc np show ?thesis unfolding a creationInvariant_def by (auto split: if_splits)
  qed
qed

lemma creationInvariant_resume:
  assumes inv: "creationInvariant m" and f: "resume i m = Some m'"
  shows "creationInvariant m'"
proof (cases "ops m i")
  case (Creating k)
  from inv Creating have only: "\<And>j k'. ops m j = Creating k' \<Longrightarrow> j = i"
    unfolding creationInvariant_def by blast
  from f Creating have settled: "promises m k \<noteq> Pending"
    by (auto simp: resume_def split: promise.splits)
  have np: "promises m k' \<noteq> Pending" for k'
  proof
    assume p: "promises m k' = Pending"
    with inv obtain j where "ops m j = Creating k'" unfolding creationInvariant_def by blast
    with only Creating have "k' = k" by fastforce
    with p settled show False by simp
  qed
  from f Creating
  have "\<exists>q. (\<forall>k'. q \<noteq> Creating k') \<and> ops m' = (ops m)(i := q) \<and> promises m' = promises m"
    by (cases "promises m k") (auto simp: resume_def afterInit_def)
  then obtain q where q: "\<And>k'. q \<noteq> Creating k'"
    and o: "ops m' = (ops m)(i := q)" and pr: "promises m' = promises m"
    by blast
  have nc: "ops m' j \<noteq> Creating k'" for j k'
    using only [of j k'] q by (auto simp: o)
  from np nc show ?thesis unfolding creationInvariant_def pr by blast
next
  case (Joined k)
  with f have "\<exists>q. (\<forall>k'. q \<noteq> Creating k') \<and> m' = m\<lparr>ops := (ops m)(i := q)\<rparr>"
    by (cases "promises m k") (auto simp: resume_def afterInit_def)
  then obtain q where q: "\<And>k'. q \<noteq> Creating k'" and m': "m' = m\<lparr>ops := (ops m)(i := q)\<rparr>"
    by blast
  show ?thesis unfolding m'
    by (rule creationInvariant_move [OF inv, where i = i and p = q]) (simp_all add: Joined q)
qed (use f in \<open>simp_all add: resume_def\<close>)

lemma creationInvariant_fire:
  assumes inv: "creationInvariant m" and f: "fire a m = Some m'"
  shows "creationInvariant m'"
proof (cases a)
  case (Arrive i)
  with f have o: "ops m i = Absent" and m': "m' = m\<lparr>ops := (ops m)(i := Ready)\<rparr>"
    by (auto split: if_splits)
  show ?thesis unfolding m'
    by (rule creationInvariant_move [OF inv, where i = i and p = Ready]) (simp_all add: o)
next
  case (Acquire i)
  with f inv show ?thesis by (auto split: if_splits intro: creationInvariant_acquire)
next
  case (LaunchOk k)
  with f have m': "m' = m\<lparr>promises := (promises m)(k := Fulfilled (nextProcess m)),
                   live := insert (nextProcess m) (live m),
                   nextProcess := nextProcess m + 1\<rparr>"
    by (auto split: if_splits)
  from inv show ?thesis unfolding m' creationInvariant_def by (auto split: if_splits)
next
  case (LaunchErr k msg)
  with f have m': "m' = m\<lparr>promises := (promises m)(k := Rejected msg)\<rparr>"
    by (auto split: if_splits)
  from inv show ?thesis unfolding m' creationInvariant_def by (auto split: if_splits)
next
  case (Resume i)
  with f inv show ?thesis by (auto intro: creationInvariant_resume)
next
  case (Disconnect h)
  with f show ?thesis
    by (auto split: if_splits intro!: creationInvariant_same [OF inv])
next
  case (Succeed i)
  with f obtain h where o: "ops m i = Rendering h" and m': "m' = m\<lparr>ops := (ops m)(i := Absent)\<rparr>"
    by (auto split: pc.splits)
  show ?thesis unfolding m'
    by (rule creationInvariant_move [OF inv, where i = i and p = Absent]) (simp_all add: o)
next
  case (Fail i msg)
  with f obtain h where o: "ops m i = Rendering h" and m': "m' = m\<lparr>ops := (ops m)(i := Caught msg)\<rparr>"
    by (auto split: pc.splits)
  show ?thesis unfolding m'
    by (rule creationInvariant_move [OF inv, where i = i and p = "Caught msg"]) (simp_all add: o)
next
  case (Handle i)
  with f obtain msg where o: "ops m i = Caught msg" and m': "m' = handleFailure i msg m"
    by (auto split: pc.splits)
  have "\<exists>q. (\<forall>k'. q \<noteq> Creating k') \<and> handleFailure i msg m = m\<lparr>ops := (ops m)(i := q)\<rparr>"
    by (cases "isBrowserFault msg"; cases "browserM m") (auto simp: handleFailure_def)
  then obtain q where q: "\<And>k'. q \<noteq> Creating k'" and h: "handleFailure i msg m = m\<lparr>ops := (ops m)(i := q)\<rparr>"
    by blast
  show ?thesis unfolding m' h
    by (rule creationInvariant_move [OF inv, where i = i and p = q]) (simp_all add: o q)
next
  case (CloseDone i)
  with f obtain b where o: "ops m i = Closing b"
    and m': "m' = m\<lparr>browserM := None, browserDisconnectedM := True, ops := (ops m)(i := Flagging)\<rparr>"
    by (auto split: pc.splits)
  show ?thesis unfolding m'
    by (rule creationInvariant_move [OF inv, where i = i and p = Flagging]) (simp_all add: o)
next
  case (Flag i)
  with f have o: "ops m i = Flagging"
    and m': "m' = m\<lparr>browserDisconnectedM := True, ops := (ops m)(i := Ready)\<rparr>"
    by (auto split: pc.splits)
  show ?thesis unfolding m'
    by (rule creationInvariant_move [OF inv, where i = i and p = Ready]) (simp_all add: o)
next
  case (Leave i)
  with f have o: "ops m i = Ready" and m': "m' = m\<lparr>ops := (ops m)(i := Absent)\<rparr>"
    by (auto split: if_splits)
  show ?thesis unfolding m'
    by (rule creationInvariant_move [OF inv, where i = i and p = Absent]) (simp_all add: o)
qed

lemma creationInvariant_run:
  "creationInvariant m \<Longrightarrow> run as m = Some m' \<Longrightarrow> creationInvariant m'"
proof (induction as arbitrary: m)
  case Nil
  then show ?case by simp
next
  case (Cons a as)
  from Cons.prems(2) obtain m1 where f: "fire a m = Some m1" and r: "run as m1 = Some m'"
    by (auto split: option.splits)
  from creationInvariant_fire [OF Cons.prems(1) f] r show ?case by (rule Cons.IH)
qed

lemma single_creation_in_flight:
  assumes "reachable m" and "promises m k = Pending" and "promises m k' = Pending"
  shows "k = k'"
proof -
  from assms(1) obtain as where "run as initialManager = Some m" unfolding reachable_def by blast
  from creationInvariant_run [OF creationInvariant_initial this]
  have inv: "creationInvariant m" .
  from inv assms(2) obtain i where i: "ops m i = Creating k" unfolding creationInvariant_def by blast
  from inv assms(3) obtain j where j: "ops m j = Creating k'" unfolding creationInvariant_def by blast
  from inv i j have "i = j" unfolding creationInvariant_def by blast
  with i j show ?thesis by simp
qed

text \<open>
  C4. The first half of the claim holds, and is the lemma above: in every state that a
  run reaches at most one promise of \<^verbatim>\<open>_createBrowser\<close> is pending, because a caller
  that finds \<^verbatim>\<open>isInitializing\<close> set awaits the promise that is there. The second half
  fails. \<^verbatim>\<open>browserDisconnected\<close> is cleared when a launch starts and set again, at
  line 569 or in \<^verbatim>\<open>closeBrowser\<close>, by whichever operation fails meanwhile; the end of
  the launch stores the new browser and leaves the flag alone, so the next call of
  \<^verbatim>\<open>initBrowser\<close> launches once more and overwrites \<^verbatim>\<open>this.browser\<close> without
  closing what it held. After the run \<open>raceTrace\<close> the processes 2 and 3 are both
  live: the service holds browser 3, and operation 1 is still rendering on browser 2,
  which nothing will close.
\<close>

theorem two_live_browsers_reachable:
  "case run raceTrace initialManager of
     None \<Rightarrow> False
   | Some m \<Rightarrow> live m = {2, 3} \<and> browserM m = Some 3
               \<and> ops m 0 = Rendering 3 \<and> ops m 1 = Rendering 2"
  by code_simp
end
